theory Spec2Isabelle
  imports Main "HOL-Library.Word"
begin

unbundle bit_operations_syntax

section \<open>The transit data-key endpoint\<close>

text \<open>
  This theory embeds the handler \<open>pathDatakeyWrite\<close> of the transit backend
  (path \<open>datakey/<plaintext>/<name>\<close>) together with the pieces of the Go standard
  library it calls (\<open>encoding/base64\<close>, \<open>crypto/rand\<close>), and proves the properties of
  the data-key operation. The lock manager (\<open>b.lm\<close>) and the policy's \<open>Encrypt\<close> method
  are collaborators of the handler whose code is not part of the handler: they are
  parameters of the model, so every theorem holds for any implementation of them.
\<close>

subsection \<open>Go standard library: \<open>encoding/base64\<close>, \<open>StdEncoding\<close>\<close>

type_synonym byte = "8 word"

text \<open>The standard alphabet of RFC 4648 (\<open>encodeStd\<close>) and the padding character.\<close>

definition encodeStd :: string where
  "encodeStd = ''ABCDEFGHIJKLMNOPQRSTUVWXYZabcdefghijklmnopqrstuvwxyz0123456789+/''"

definition StdPadding :: char where
  "StdPadding = CHR ''=''"

text \<open>\<open>val>>n & 0x3F\<close> on the unsigned accumulator of the encoder.\<close>

definition sextet :: "nat \<Rightarrow> 32 word \<Rightarrow> 32 word" where
  "sextet n val = drop_bit n val AND 0x3F"

text \<open>\<open>enc.encode[i]\<close>: the alphabet indexed by a six-bit value.\<close>

definition encode :: "32 word \<Rightarrow> char" where
  "encode i = encodeStd ! unat i"

text \<open>
  \<open>enc.decodeMap\<close>: the inverse table, built from the alphabet; a byte outside the
  alphabet has no entry (the table's \<open>0xFF\<close>).
\<close>

definition decodeMap :: "char \<Rightarrow> byte option" where
  "decodeMap c = map_of (zip encodeStd (map of_nat [0..<64])) c"

text \<open>
  \<open>EncodeToString\<close>: three source bytes become four characters; a remainder of one or
  two bytes becomes two or three characters followed by padding.
\<close>

fun EncodeToString :: "byte list \<Rightarrow> string" where
  "EncodeToString (a # b # c # rest) =
     (let val = push_bit 16 (ucast a) OR push_bit 8 (ucast b) OR ucast c
      in encode (sextet 18 val) # encode (sextet 12 val)
         # encode (sextet 6 val) # encode (sextet 0 val)
         # EncodeToString rest)"
| "EncodeToString [a, b] =
     (let val = push_bit 16 (ucast a) OR push_bit 8 (ucast b)
      in [encode (sextet 18 val), encode (sextet 12 val),
          encode (sextet 6 val), StdPadding])"
| "EncodeToString [a] =
     (let val = push_bit 16 (ucast a)
      in [encode (sextet 18 val), encode (sextet 12 val),
          StdPadding, StdPadding])"
| "EncodeToString [] = []"

text \<open>The decoder's accumulator: four six-bit values packed into 24 bits.\<close>

definition quantum :: "byte \<Rightarrow> byte \<Rightarrow> byte \<Rightarrow> byte \<Rightarrow> 32 word" where
  "quantum d0 d1 d2 d3 =
     push_bit 18 (ucast d0) OR push_bit 12 (ucast d1) OR push_bit 6 (ucast d2) OR ucast d3"

text \<open>
  The decoder on input without line breaks. A full group of four alphabet characters
  yields three bytes; padding is accepted only in the last group (\<open>xx==\<close> yields one
  byte, \<open>xxx=\<close> two) and nothing may follow it; a group cut short, a character outside
  the alphabet, or misplaced padding is a \<open>CorruptInputError\<close>, here \<open>None\<close>.
\<close>

fun decode :: "string \<Rightarrow> byte list option" where
  "decode (c0 # c1 # c2 # c3 # rest) =
     (if c2 = StdPadding then
        (if c3 = StdPadding \<and> rest = [] then
           (case (decodeMap c0, decodeMap c1) of
              (Some d0, Some d1) \<Rightarrow> Some [ucast (drop_bit 16 (quantum d0 d1 0 0))]
            | _ \<Rightarrow> None)
         else None)
      else if c3 = StdPadding then
        (if rest = [] then
           (case (decodeMap c0, decodeMap c1, decodeMap c2) of
              (Some d0, Some d1, Some d2) \<Rightarrow>
                Some [ucast (drop_bit 16 (quantum d0 d1 d2 0)),
                      ucast (drop_bit 8 (quantum d0 d1 d2 0))]
            | _ \<Rightarrow> None)
         else None)
      else
        (case (decodeMap c0, decodeMap c1, decodeMap c2, decodeMap c3) of
           (Some d0, Some d1, Some d2, Some d3) \<Rightarrow>
             (case decode rest of
                Some out \<Rightarrow> Some (ucast (drop_bit 16 (quantum d0 d1 d2 d3))
                                # ucast (drop_bit 8 (quantum d0 d1 d2 d3))
                                # ucast (quantum d0 d1 d2 d3) # out)
              | None \<Rightarrow> None)
         | _ \<Rightarrow> None))"
| "decode [] = Some []"
| "decode _ = None"

text \<open>
  \<open>DecodeString\<close>: carriage returns and line feeds are skipped wherever they occur,
  the rest is decoded. \<open>None\<close> stands for a non-nil error.
\<close>

definition DecodeString :: "string \<Rightarrow> byte list option" where
  "DecodeString s = decode (filter (\<lambda>c. c \<noteq> CHR 0x0A \<and> c \<noteq> CHR 0x0D) s)"

subsection \<open>Errors, responses, request fields\<close>

text \<open>
  The error values the handler returns or inspects: the sentinel
  \<open>logical.ErrInvalidRequest\<close>, the two \<open>certutil\<close> error types its type switch
  distinguishes, and any other error (\<open>fmt.Errorf\<close>, storage and random-source errors).
\<close>

datatype go_error =
    ErrInvalidRequest
  | UserError string
  | InternalError string
  | Errorf string

text \<open>\<open>err.Error()\<close>.\<close>

fun Error :: "go_error \<Rightarrow> string" where
  "Error ErrInvalidRequest = ''invalid request''"
| "Error (UserError m) = m"
| "Error (InternalError m) = m"
| "Error (Errorf m) = m"

text \<open>
  A \<open>*logical.Response\<close>: either what \<open>logical.ErrorResponse(text)\<close> builds, or a
  response with a \<open>Data\<close> map. The handler stores only strings in the map.
\<close>

datatype Response =
    ErrorResponse string
  | Response "string \<rightharpoonup> string"

text \<open>
  Modelled from the spec: the lock type that \<open>GetPolicy\<close> returns and \<open>UnlockPolicy\<close>
  takes (its declaration belongs to the lock manager): shared access for reading,
  exclusive access for writing.
\<close>

datatype lockType = shared | exclusive

text \<open>
  The request's field data. A field is supplied or not; \<open>d.Get\<close> returns the supplied
  value, else the schema's \<open>Default\<close>, else the zero value of the field's type. Of the
  four fields declared by \<open>pathDatakey\<close> only \<open>bits\<close> has a default, 256.
\<close>

record FieldData =
  f_name :: "string option"
  f_plaintext :: "string option"
  f_context :: "string option"
  f_bits :: "int option"

definition bits_Default :: int where
  "bits_Default = 256"

definition Get_string :: "string option \<Rightarrow> string" where
  "Get_string v = (case v of Some s \<Rightarrow> s | None \<Rightarrow> [])"

definition Get_bits :: "FieldData \<Rightarrow> int" where
  "Get_bits d = (case f_bits d of Some n \<Rightarrow> n | None \<Rightarrow> bits_Default)"

subsection \<open>Collaborators and effects\<close>

text \<open>
  The lock manager \<open>b.lm\<close> and the policy's \<open>Encrypt\<close> method. \<open>'s\<close> is the storage
  (\<open>req.Storage\<close>), \<open>'l\<close> the state of the lock manager, \<open>'p\<close> a policy.
  \<open>GetPolicy\<close> is handed the storage and the name and returns the policy (or nil), the
  lock type and an error, and leaves the storage and the lock manager in a new state;
  \<open>UnlockPolicy\<close> is handed the name and the lock type; \<open>Encrypt\<close> returns a string and
  an error.
\<close>

record ('s, 'l, 'p) backend =
  GetPolicy :: "'s \<Rightarrow> string \<Rightarrow> 'l \<Rightarrow> ('p option \<times> lockType \<times> go_error option) \<times> 's \<times> 'l"
  UnlockPolicy :: "string \<Rightarrow> lockType \<Rightarrow> 'l \<Rightarrow> 'l"
  Encrypt :: "'p \<Rightarrow> byte list \<Rightarrow> string \<Rightarrow> string \<times> go_error option"

text \<open>
  \<open>crypto/rand\<close>: one call of \<open>rand.Read\<close> either fails, or overwrites every byte of
  the buffer with a byte of the source (\<open>g i\<close> for position \<open>i\<close>).
\<close>

datatype rand_outcome = RandFail go_error | RandFill "nat \<Rightarrow> byte"

fun rand_Read :: "rand_outcome \<Rightarrow> byte list \<Rightarrow> byte list \<times> go_error option" where
  "rand_Read (RandFail e) buf = (buf, Some e)"
| "rand_Read (RandFill g) buf = (map g [0..<length buf], None)"

text \<open>\<open>make([]byte, n)\<close>: a zeroed buffer of \<open>n\<close> bytes.\<close>

definition make_bytes :: "nat \<Rightarrow> byte list" where
  "make_bytes n = replicate n 0"

text \<open>
  What the handler does to the outside, in order: the calls of the lock manager, the
  buffers it allocates, the call of the random source (with the buffer's length) and the
  call of \<open>Encrypt\<close> (with its two arguments).
\<close>

datatype event =
    EvGetPolicy string
  | EvMake nat
  | EvRandRead nat
  | EvEncrypt "byte list" string
  | EvUnlockPolicy string lockType

fun is_lock_event :: "event \<Rightarrow> bool" where
  "is_lock_event (EvGetPolicy _) = True"
| "is_lock_event (EvUnlockPolicy _ _) = True"
| "is_lock_event _ = False"

fun is_key_event :: "event \<Rightarrow> bool" where
  "is_key_event (EvMake _) = True"
| "is_key_event (EvRandRead _) = True"
| "is_key_event (EvEncrypt _ _) = True"
| "is_key_event _ = False"

fun is_rand_event :: "event \<Rightarrow> bool" where
  "is_rand_event (EvRandRead _) = True"
| "is_rand_event _ = False"

fun is_encrypt_event :: "event \<Rightarrow> bool" where
  "is_encrypt_event (EvEncrypt _ _) = True"
| "is_encrypt_event _ = False"

text \<open>
  The result of one run of the handler: the two values it returns, the storage and the
  lock manager as it leaves them, and the calls it made.
\<close>

record ('s, 'l) run =
  resp :: "Response option"
  err :: "go_error option"
  storage_after :: 's
  lm_after :: 'l
  calls :: "event list"

subsection \<open>The handler\<close>

definition invalid_path_msg :: string where
  "invalid_path_msg =
     ''Invalid path, must be '' @ [CHR 0x27] @ ''plaintext'' @ [CHR 0x27]
       @ '' or '' @ [CHR 0x27] @ ''wrapped'' @ [CHR 0x27]"

text \<open>
  The context: decoded when the field is not empty, else the nil slice. (A nil slice
  and an empty one are both the empty list.)
\<close>

definition decode_context :: "FieldData \<Rightarrow> byte list option" where
  "decode_context d =
     (let contextRaw = Get_string (f_context d)
      in if length contextRaw \<noteq> 0 then DecodeString contextRaw else Some [])"

text \<open>
  The buffer for the key: 32 bytes are allocated first, then the switch on \<open>bits\<close>
  replaces them for 512 and 128, keeps them for 256, and otherwise leaves. The result is
  the buffer (or \<open>None\<close> for the default branch) and the allocations made.
\<close>

definition key_buffer :: "int \<Rightarrow> byte list option \<times> event list" where
  "key_buffer bits =
     (let newKey = make_bytes 32
      in if bits = 512 then (Some (make_bytes 64), [EvMake 32, EvMake 64])
         else if bits = 256 then (Some newKey, [EvMake 32])
         else if bits = 128 then (Some (make_bytes 16), [EvMake 32, EvMake 16])
         else (None, [EvMake 32]))"

text \<open>
  The part of the handler that runs with the policy locked, from the allocation of the
  buffer to the response. It returns the handler's two results and the calls made.
\<close>

definition datakey_locked ::
  "('s, 'l, 'p) backend \<Rightarrow> rand_outcome \<Rightarrow> FieldData \<Rightarrow> bool \<Rightarrow> byte list \<Rightarrow> 'p
     \<Rightarrow> (Response option \<times> go_error option) \<times> event list" where
  "datakey_locked b rnd d plaintextAllowed context p =
     (case key_buffer (Get_bits d) of
        (None, evs) \<Rightarrow>
          ((Some (ErrorResponse ''invalid bit length''), Some ErrInvalidRequest), evs)
      | (Some buf, evs) \<Rightarrow>
          (case rand_Read rnd buf of
             (_, Some e) \<Rightarrow> ((None, Some e), evs @ [EvRandRead (length buf)])
           | (newKey, None) \<Rightarrow>
               (let evs' = evs @ [EvRandRead (length buf),
                                  EvEncrypt context (EncodeToString newKey)]
                in case Encrypt b p context (EncodeToString newKey) of
                     (_, Some e) \<Rightarrow>
                       (case e of
                          UserError _ \<Rightarrow>
                            ((Some (ErrorResponse (Error e)), Some ErrInvalidRequest), evs')
                        | InternalError _ \<Rightarrow> ((None, Some e), evs')
                        | _ \<Rightarrow> ((None, Some e), evs'))
                   | (ciphertext, None) \<Rightarrow>
                       if ciphertext = [] then
                         ((None, Some (Errorf ''empty ciphertext returned'')), evs')
                       else
                         (let Data = [''ciphertext'' \<mapsto> ciphertext];
                              Data' = (if plaintextAllowed
                                       then Data(''plaintext'' \<mapsto> EncodeToString newKey)
                                       else Data)
                          in ((Some (Response Data'), None), evs')))))"

text \<open>
  \<open>pathDatakeyWrite\<close>: the mode, the context, the policy, then the locked part; the
  deferred \<open>UnlockPolicy\<close> runs after the locked part, whatever it returns.
\<close>

definition pathDatakeyWrite ::
  "('s, 'l, 'p) backend \<Rightarrow> rand_outcome \<Rightarrow> 's \<Rightarrow> 'l \<Rightarrow> FieldData \<Rightarrow> ('s, 'l) run" where
  "pathDatakeyWrite b rnd storage l d =
     (let name = Get_string (f_name d);
          plaintext = Get_string (f_plaintext d)
      in if plaintext \<noteq> ''plaintext'' \<and> plaintext \<noteq> ''wrapped'' then
           \<lparr>resp = Some (ErrorResponse invalid_path_msg), err = Some ErrInvalidRequest,
            storage_after = storage, lm_after = l, calls = []\<rparr>
         else
           (let plaintextAllowed = (plaintext = ''plaintext'')
            in case decode_context d of
                 None \<Rightarrow>
                   \<lparr>resp = Some (ErrorResponse ''failed to decode context as base64''),
                    err = Some ErrInvalidRequest,
                    storage_after = storage, lm_after = l, calls = []\<rparr>
               | Some context \<Rightarrow>
                   (case GetPolicy b storage name l of
                      ((_, _, Some e), storage', l') \<Rightarrow>
                        \<lparr>resp = None, err = Some e,
                         storage_after = storage', lm_after = l',
                         calls = [EvGetPolicy name]\<rparr>
                    | ((None, _, None), storage', l') \<Rightarrow>
                        \<lparr>resp = Some (ErrorResponse ''policy not found''),
                         err = Some ErrInvalidRequest,
                         storage_after = storage', lm_after = l',
                         calls = [EvGetPolicy name]\<rparr>
                    | ((Some p, lockType, None), storage', l') \<Rightarrow>
                        (case datakey_locked b rnd d plaintextAllowed context p of
                           ((r, e), evs) \<Rightarrow>
                             \<lparr>resp = r, err = e,
                              storage_after = storage',
                              lm_after = UnlockPolicy b name lockType l',
                              calls = EvGetPolicy name # evs
                                        @ [EvUnlockPolicy name lockType]\<rparr>))))"

text \<open>A run succeeds when it returns a response with data and a nil error.\<close>

fun is_success :: "('s, 'l) run \<Rightarrow> bool" where
  "is_success r = (case (resp r, err r) of (Some (Response _), None) \<Rightarrow> True | _ \<Rightarrow> False)"

text \<open>The data of the response (empty when there is none).\<close>

fun Data_of :: "('s, 'l) run \<Rightarrow> string \<rightharpoonup> string" where
  "Data_of r = (case resp r of Some (Response m) \<Rightarrow> m | _ \<Rightarrow> Map.empty)"

text \<open>The mode of the request is one of the two the handler accepts.\<close>

definition valid_mode :: "FieldData \<Rightarrow> bool" where
  "valid_mode d \<longleftrightarrow>
     Get_string (f_plaintext d) = ''plaintext'' \<or> Get_string (f_plaintext d) = ''wrapped''"

fun is_unlock_event :: "event \<Rightarrow> bool" where
  "is_unlock_event (EvUnlockPolicy _ _) = True"
| "is_unlock_event _ = False"

text \<open>
  The run reaches the policy with its lock held: the request passes the checks of the
  mode and of the context, and \<open>GetPolicy\<close> returns a policy and no error. This is the
  point where the handler defers \<open>UnlockPolicy\<close>.
\<close>

definition policy_locked :: "('s, 'l, 'p) backend \<Rightarrow> 's \<Rightarrow> 'l \<Rightarrow> FieldData \<Rightarrow> bool" where
  "policy_locked b s l d \<longleftrightarrow>
     valid_mode d \<and> decode_context d \<noteq> None
     \<and> (case fst (GetPolicy b s (Get_string (f_name d)) l) of
          (Some p, lt, None) \<Rightarrow> True
        | _ \<Rightarrow> False)"

subsection \<open>Encryption and decryption under a policy\<close>

text \<open>
  Modelled from the spec: the error taxonomy of the key-policy core.
\<close>

datatype spec_error = InvalidArgument | NotFound | Busy | CryptoError | InternalFailure

text \<open>
  Modelled from the spec: the policy record with its key versions, and the ciphertext
  envelope as the tagged pair of version and ciphertext. The code of the policy
  (its record, \<open>encrypt\<close> and \<open>decrypt\<close>) is not among the sources of the handler.
\<close>

record key_version =
  version_number :: nat
  key_bytes :: "byte list"
  created_at :: nat

record PolicyRecord =
  policy_name :: string
  versions :: "key_version list"
  latest_version :: nat
  min_decryption_version :: nat
  min_encryption_version :: nat
  derived :: bool
  kdf_mode :: nat
  convergent_encryption :: bool
  exportable :: bool

record envelope =
  env_version :: nat
  env_ciphertext :: "byte list"

text \<open>
  Modelled from the spec: the invariants of a policy record. Versions are numbered from
  1 in steps of 1, \<open>latest_version\<close> points into them, the two minimum versions are
  ordered below it, and convergent encryption requires derivation.
\<close>

definition policy_invariant :: "PolicyRecord \<Rightarrow> bool" where
  "policy_invariant p \<longleftrightarrow>
     versions p \<noteq> []
     \<and> map version_number (versions p) = [1..<Suc (length (versions p))]
     \<and> latest_version p \<in> set (map version_number (versions p))
     \<and> min_decryption_version p \<le> min_encryption_version p
     \<and> min_encryption_version p \<le> latest_version p
     \<and> (convergent_encryption p \<longrightarrow> derived p)"

text \<open>
  Modelled from the spec: the cipher and the context deriver, by their interfaces.
  \<open>seal\<close> takes the key, the plaintext, the version, the convergent flag and the nonce
  drawn for this call; \<open>unseal\<close> (the spec's \<open>open\<close>) takes the key, the envelope and
  the expected version and returns the plaintext, or \<open>None\<close> for an authentication
  error; \<open>derive\<close> takes the base key, the context and the derivation mode. The spec
  fixes no algorithm for them.
\<close>

record cipher =
  seal :: "byte list \<Rightarrow> byte list \<Rightarrow> nat \<Rightarrow> bool \<Rightarrow> byte list \<Rightarrow> envelope"
  unseal :: "byte list \<Rightarrow> envelope \<Rightarrow> nat \<Rightarrow> byte list option"
  derive :: "byte list \<Rightarrow> byte list \<Rightarrow> nat \<Rightarrow> byte list"

text \<open>
  Modelled from the spec: what authenticated encryption with a version tag promises.
  The envelope carries the version it was sealed for, and opening an envelope with the
  key and the version it was sealed with returns the plaintext.
\<close>

definition cipher_contract :: "cipher \<Rightarrow> bool" where
  "cipher_contract c \<longleftrightarrow>
     (\<forall>key m v conv nonce.
        env_version (seal c key m v conv nonce) = v
        \<and> unseal c key (seal c key m v conv nonce) v = Some m)"

text \<open>
  Modelled from the spec: the key of a version. A derived policy requires a non-empty
  context and acts on the derived key; a policy that is not derived rejects a context
  and acts on the raw key of the version.
\<close>

definition resolve_key ::
  "cipher \<Rightarrow> PolicyRecord \<Rightarrow> byte list option \<Rightarrow> nat \<Rightarrow> spec_error + byte list" where
  "resolve_key c p context v =
     (if derived p then
        (case context of
           None \<Rightarrow> Inl InvalidArgument
         | Some ctx \<Rightarrow>
             if ctx = [] then Inl InvalidArgument
             else (case find (\<lambda>kv. version_number kv = v) (versions p) of
                     None \<Rightarrow> Inl InvalidArgument
                   | Some kv \<Rightarrow> Inr (derive c (key_bytes kv) ctx (kdf_mode p))))
      else
        (case context of
           Some ctx \<Rightarrow> Inl InvalidArgument
         | None \<Rightarrow>
             (case find (\<lambda>kv. version_number kv = v) (versions p) of
                None \<Rightarrow> Inl InvalidArgument
              | Some kv \<Rightarrow> Inr (key_bytes kv))))"

text \<open>
  Modelled from the spec: \<open>encrypt\<close> selects \<open>latest_version\<close> unless the caller pins
  a version not below \<open>min_encryption_version\<close>, and seals under that version's key.
\<close>

definition spec_encrypt ::
  "cipher \<Rightarrow> PolicyRecord \<Rightarrow> byte list option \<Rightarrow> nat option \<Rightarrow> byte list \<Rightarrow> byte list
     \<Rightarrow> spec_error + envelope" where
  "spec_encrypt c p context pinned plaintext nonce =
     (case (case pinned of
              None \<Rightarrow> Some (latest_version p)
            | Some v \<Rightarrow> if min_encryption_version p \<le> v then Some v else None) of
        None \<Rightarrow> Inl InvalidArgument
      | Some v \<Rightarrow>
          (case resolve_key c p context v of
             Inl e \<Rightarrow> Inl e
           | Inr key \<Rightarrow> Inr (seal c key plaintext v (convergent_encryption p) nonce)))"

text \<open>
  Modelled from the spec: \<open>decrypt\<close> reads the version tag, rejects a version below
  \<open>min_decryption_version\<close>, resolves that version's key and opens the envelope; an
  authentication failure is a \<open>CryptoError\<close>.
\<close>

definition spec_decrypt ::
  "cipher \<Rightarrow> PolicyRecord \<Rightarrow> byte list option \<Rightarrow> envelope \<Rightarrow> spec_error + byte list" where
  "spec_decrypt c p context env =
     (let v = env_version env
      in if v < min_decryption_version p then Inl InvalidArgument
         else (case resolve_key c p context v of
                 Inl e \<Rightarrow> Inl e
               | Inr key \<Rightarrow>
                   (case unseal c key env v of
                      None \<Rightarrow> Inl CryptoError
                    | Some m \<Rightarrow> Inr m)))"

subsection \<open>Instances for running the model\<close>

text \<open>
  A small lock manager over an association list of stored policies and a list of held
  locks, three policies whose \<open>Encrypt\<close> succeeds, returns an empty string, and
  returns a \<open>UserError\<close>, and a random source that fills position \<open>i\<close> with \<open>i\<close>.
\<close>

definition test_backend :: "((string \<times> nat) list, (string \<times> lockType) list, nat) backend" where
  "test_backend =
     \<lparr>GetPolicy = (\<lambda>s n l. case map_of s n of
                              None \<Rightarrow> ((None, shared, None), s, l)
                            | Some p \<Rightarrow> ((Some p, shared, None), s, (n, shared) # l)),
      UnlockPolicy = (\<lambda>n lt l. remove1 (n, lt) l),
      Encrypt = (\<lambda>p ctx pt. if p = 0 then ([], None)
                             else if p = 1 then ([], Some (UserError ''context not allowed''))
                             else (''v1:'' @ pt, None))\<rparr>"

definition test_storage :: "(string \<times> nat) list" where
  "test_storage = [(''k'', 2), (''empty'', 0), (''user'', 1)]"

definition test_rand :: rand_outcome where
  "test_rand = RandFill (\<lambda>i. of_nat i)"

definition test_request :: "string \<Rightarrow> string \<Rightarrow> string \<Rightarrow> int option \<Rightarrow> FieldData" where
  "test_request mode nm ctx b =
     \<lparr>f_name = Some nm, f_plaintext = Some mode, f_context = Some ctx, f_bits = b\<rparr>"

abbreviation test_run :: "string \<Rightarrow> string \<Rightarrow> string \<Rightarrow> int option
    \<Rightarrow> ((string \<times> nat) list, (string \<times> lockType) list) run" where
  "test_run mode nm ctx bits \<equiv>
     pathDatakeyWrite test_backend test_rand test_storage [] (test_request mode nm ctx bits)"

text \<open>A cipher that shifts every byte by the length of the key, and a policy with two versions.\<close>

definition test_cipher :: cipher where
  "test_cipher =
     \<lparr>seal = (\<lambda>key m v conv nonce.
               \<lparr>env_version = v, env_ciphertext = map (\<lambda>x. x + of_nat (length key)) m\<rparr>),
      unseal = (\<lambda>key env v.
               if env_version env = v
               then Some (map (\<lambda>x. x - of_nat (length key)) (env_ciphertext env)) else None),
      derive = (\<lambda>key ctx mode. key @ ctx)\<rparr>"

definition test_policy :: PolicyRecord where
  "test_policy =
     \<lparr>policy_name = ''k'',
      versions = [\<lparr>version_number = 1, key_bytes = [1, 2, 3], created_at = 0\<rparr>,
                  \<lparr>version_number = 2, key_bytes = [4, 5, 6, 7], created_at = 10\<rparr>],
      latest_version = 2, min_decryption_version = 1, min_encryption_version = 2,
      derived = False, kdf_mode = 0, convergent_encryption = False, exportable = False\<rparr>"

section \<open>Properties of the base64 encoding\<close>

lemma distinct_encodeStd: "distinct encodeStd"
  unfolding encodeStd_def by simp

lemma length_encodeStd: "length encodeStd = 64"
  unfolding encodeStd_def by simp

lemma decodeMap_encode:
  assumes "i < 64"
  shows "decodeMap (encode i) = Some (ucast i)"
proof -
  have u: "unat i < 64" using assms by (simp add: word_less_nat_alt)
  have "map_of (zip encodeStd (map of_nat [0..<64])) (encodeStd ! unat i)
          = Some ((map of_nat [0..<64] :: byte list) ! unat i)"
    using u by (intro map_of_zip_nth distinct_encodeStd) (simp_all add: length_encodeStd)
  moreover have "(map of_nat [0..<64] :: byte list) ! unat i = of_nat (unat i)"
    using u by simp
  ultimately show ?thesis
    by (simp add: decodeMap_def encode_def)
qed

lemma Suc_Suc_diff_two: "2 \<le> n \<Longrightarrow> Suc (Suc (n - 2)) = n" "\<not> n < 2 \<Longrightarrow> Suc (Suc (n - 2)) = n"
  by simp_all

lemma and_0x3F_take_bit: "(w :: 32 word) AND 0x3F = take_bit 6 w"
proof -
  have "(0x3F :: 32 word) = mask 6" by (simp add: mask_eq_exp_minus_1)
  then show ?thesis by (simp add: take_bit_eq_mask)
qed

lemma quantum_roundtrip0:
  fixes a b c :: byte
  defines "val \<equiv> push_bit 16 (ucast a) OR push_bit 8 (ucast b) OR (ucast c :: 32 word)"
  shows "ucast (drop_bit 16 (quantum (ucast (sextet 18 val)) (ucast (sextet 12 val))
            (ucast (sextet 6 val)) (ucast (sextet 0 val)))) = a"
  unfolding val_def quantum_def sextet_def and_0x3F_take_bit
  apply (rule bit_word_eqI)
  apply (auto simp add: bit_simps Suc_Suc_diff_two dest: bit_imp_le_length)
  done

lemma quantum_roundtrip1:
  fixes a b c :: byte
  defines "val \<equiv> push_bit 16 (ucast a) OR push_bit 8 (ucast b) OR (ucast c :: 32 word)"
  shows "ucast (drop_bit 8 (quantum (ucast (sextet 18 val)) (ucast (sextet 12 val))
            (ucast (sextet 6 val)) (ucast (sextet 0 val)))) = b"
  unfolding val_def quantum_def sextet_def and_0x3F_take_bit
  apply (rule bit_word_eqI)
  apply (auto simp add: bit_simps Suc_Suc_diff_two dest: bit_imp_le_length)
  done

lemma quantum_roundtrip2:
  fixes a b c :: byte
  defines "val \<equiv> push_bit 16 (ucast a) OR push_bit 8 (ucast b) OR (ucast c :: 32 word)"
  shows "ucast (quantum (ucast (sextet 18 val)) (ucast (sextet 12 val))
            (ucast (sextet 6 val)) (ucast (sextet 0 val))) = c"
  unfolding val_def quantum_def sextet_def and_0x3F_take_bit
  apply (rule bit_word_eqI)
  apply (auto simp add: bit_simps Suc_Suc_diff_two dest: bit_imp_le_length)
  done

lemma quantum_roundtrip_2a:
  fixes a b :: byte
  defines "val \<equiv> push_bit 16 (ucast a) OR (push_bit 8 (ucast b) :: 32 word)"
  shows "ucast (drop_bit 16 (quantum (ucast (sextet 18 val)) (ucast (sextet 12 val))
            (ucast (sextet 6 val)) 0)) = a"
  unfolding val_def quantum_def sextet_def and_0x3F_take_bit
  apply (rule bit_word_eqI)
  apply (auto simp add: bit_simps Suc_Suc_diff_two dest: bit_imp_le_length)
  done

lemma quantum_roundtrip_2b:
  fixes a b :: byte
  defines "val \<equiv> push_bit 16 (ucast a) OR (push_bit 8 (ucast b) :: 32 word)"
  shows "ucast (drop_bit 8 (quantum (ucast (sextet 18 val)) (ucast (sextet 12 val))
            (ucast (sextet 6 val)) 0)) = b"
  unfolding val_def quantum_def sextet_def and_0x3F_take_bit
  apply (rule bit_word_eqI)
  apply (auto simp add: bit_simps Suc_Suc_diff_two dest: bit_imp_le_length)
  done

lemma quantum_roundtrip_1a:
  fixes a :: byte
  defines "val \<equiv> (push_bit 16 (ucast a) :: 32 word)"
  shows "ucast (drop_bit 16 (quantum (ucast (sextet 18 val)) (ucast (sextet 12 val))
            0 0)) = a"
  unfolding val_def quantum_def sextet_def and_0x3F_take_bit
  apply (rule bit_word_eqI)
  apply (auto simp add: bit_simps Suc_Suc_diff_two dest: bit_imp_le_length)
  done

lemma idx_less: "sextet n w < 64"
proof -
  have "take_bit 6 (unat (drop_bit n w)) < 2 ^ 6" by (rule take_bit_nat_less_exp)
  then show ?thesis
    by (simp add: sextet_def and_0x3F_take_bit word_less_nat_alt unsigned_take_bit_eq)
qed

lemma encode_in: "i < 64 \<Longrightarrow> encode i \<in> set encodeStd"
  by (simp add: encode_def word_less_nat_alt length_encodeStd)

lemma pad_notin: "StdPadding \<notin> set encodeStd"
  by (simp add: StdPadding_def encodeStd_def)

lemma newline_notin: "CHR 0x0A \<notin> set encodeStd" "CHR 0x0D \<notin> set encodeStd"
  by (simp_all add: encodeStd_def)

lemma encode_not_pad: "i < 64 \<Longrightarrow> encode i \<noteq> StdPadding"
  using encode_in pad_notin by metis

lemma decode_encode_idx: "decodeMap (encode (sextet n w)) = Some (ucast (sextet n w))"
  by (rule decodeMap_encode) (rule idx_less)

lemma decode_EncodeToString: "decode (EncodeToString k) = Some k"
proof (induction k rule: EncodeToString.induct)
  case (1 a b c rest)
  then show ?case
    by (simp add: Let_def encode_not_pad idx_less decode_encode_idx
        quantum_roundtrip0 quantum_roundtrip1 quantum_roundtrip2)
next
  case (2 a b)
  then show ?case
    by (simp add: Let_def encode_not_pad idx_less decode_encode_idx
        quantum_roundtrip_2a quantum_roundtrip_2b)
next
  case (3 a)
  then show ?case
    by (simp add: Let_def encode_not_pad idx_less decode_encode_idx quantum_roundtrip_1a)
next
  case 4
  then show ?case by simp
qed

lemma set_EncodeToString: "set (EncodeToString k) \<subseteq> insert StdPadding (set encodeStd)"
  by (induction k rule: EncodeToString.induct) (auto simp: Let_def encode_in idx_less)

lemma filter_EncodeToString:
  "filter (\<lambda>c. c \<noteq> CHR 0x0A \<and> c \<noteq> CHR 0x0D) (EncodeToString k) = EncodeToString k"
proof -
  have "\<forall>c \<in> set (EncodeToString k). c \<noteq> CHR 0x0A \<and> c \<noteq> CHR 0x0D"
    using set_EncodeToString [of k] newline_notin by (auto simp: StdPadding_def)
  then show ?thesis by (simp add: filter_id_conv)
qed

lemma DecodeString_EncodeToString: "DecodeString (EncodeToString k) = Some k"
  by (simp add: DecodeString_def filter_EncodeToString decode_EncodeToString)

section \<open>The paths through the handler\<close>

lemma run_invalid_mode:
  assumes "\<not> valid_mode d"
  shows "pathDatakeyWrite b rnd s l d =
           \<lparr>resp = Some (ErrorResponse invalid_path_msg), err = Some ErrInvalidRequest,
            storage_after = s, lm_after = l, calls = []\<rparr>"
  using assms by (simp add: pathDatakeyWrite_def valid_mode_def Let_def)

lemma run_bad_context:
  assumes "valid_mode d" and "decode_context d = None"
  shows "pathDatakeyWrite b rnd s l d =
           \<lparr>resp = Some (ErrorResponse ''failed to decode context as base64''),
            err = Some ErrInvalidRequest,
            storage_after = s, lm_after = l, calls = []\<rparr>"
  using assms by (auto simp add: pathDatakeyWrite_def valid_mode_def Let_def)

lemma run_lookup_failed:
  assumes "valid_mode d" and "decode_context d = Some ctx"
    and "GetPolicy b s (Get_string (f_name d)) l = ((p, lt, Some e), s', l')"
  shows "pathDatakeyWrite b rnd s l d =
           \<lparr>resp = None, err = Some e, storage_after = s', lm_after = l',
            calls = [EvGetPolicy (Get_string (f_name d))]\<rparr>"
  using assms
  by (auto simp add: pathDatakeyWrite_def valid_mode_def Let_def split: option.splits)

lemma run_not_found:
  assumes "valid_mode d" and "decode_context d = Some ctx"
    and "GetPolicy b s (Get_string (f_name d)) l = ((None, lt, None), s', l')"
  shows "pathDatakeyWrite b rnd s l d =
           \<lparr>resp = Some (ErrorResponse ''policy not found''), err = Some ErrInvalidRequest,
            storage_after = s', lm_after = l',
            calls = [EvGetPolicy (Get_string (f_name d))]\<rparr>"
  using assms by (auto simp add: pathDatakeyWrite_def valid_mode_def Let_def)

lemma run_locked:
  assumes "valid_mode d" and "decode_context d = Some ctx"
    and "GetPolicy b s (Get_string (f_name d)) l = ((Some p, lt, None), s', l')"
    and "datakey_locked b rnd d (Get_string (f_plaintext d) = ''plaintext'') ctx p = ((r, e), evs)"
  shows "pathDatakeyWrite b rnd s l d =
           \<lparr>resp = r, err = e, storage_after = s',
            lm_after = UnlockPolicy b (Get_string (f_name d)) lt l',
            calls = EvGetPolicy (Get_string (f_name d)) # evs
                      @ [EvUnlockPolicy (Get_string (f_name d)) lt]\<rparr>"
  using assms by (auto simp add: pathDatakeyWrite_def valid_mode_def Let_def)

lemma run_lookup_cases:
  assumes "valid_mode d" and "decode_context d = Some ctx"
  obtains (failed) p lt e s' l' where
      "GetPolicy b s (Get_string (f_name d)) l = ((p, lt, Some e), s', l')"
  | (absent) lt s' l' where
      "GetPolicy b s (Get_string (f_name d)) l = ((None, lt, None), s', l')"
  | (found) p lt s' l' where
      "GetPolicy b s (Get_string (f_name d)) l = ((Some p, lt, None), s', l')"
proof -
  obtain po lt eo s' l' where
    gp: "GetPolicy b s (Get_string (f_name d)) l = ((po, lt, eo), s', l')"
    by (metis prod.collapse)
  show thesis
  proof (cases eo)
    case (Some e)
    with gp failed show ?thesis by simp
  next
    case None
    with gp absent found show ?thesis by (cases po) simp_all
  qed
qed

lemma key_buffer_cases:
  "key_buffer bits =
     (if bits = 512 then (Some (make_bytes 64), [EvMake 32, EvMake 64])
      else if bits = 256 then (Some (make_bytes 32), [EvMake 32])
      else if bits = 128 then (Some (make_bytes 16), [EvMake 32, EvMake 16])
      else (None, [EvMake 32]))"
  by (simp add: key_buffer_def Let_def)

lemma key_buffer_Some:
  assumes "key_buffer bits = (Some buf, evs)"
  shows "bits \<in> {128, 256, 512} \<and> length buf = nat (bits div 8) \<and> buf = make_bytes (nat (bits div 8))
         \<and> (\<forall>e \<in> set evs. \<exists>n. e = EvMake n)"
  using assms by (auto simp add: key_buffer_cases make_bytes_def split: if_splits)

lemma key_buffer_None:
  "key_buffer bits = (None, evs) \<longleftrightarrow> bits \<notin> {128, 256, 512} \<and> evs = [EvMake 32]"
  by (auto simp add: key_buffer_cases)

lemma locked_invalid_bits:
  assumes "Get_bits d \<notin> {128, 256, 512}"
  shows "datakey_locked b rnd d pa ctx p =
           ((Some (ErrorResponse ''invalid bit length''), Some ErrInvalidRequest), [EvMake 32])"
  using assms by (simp add: datakey_locked_def key_buffer_cases)

lemma key_event_not_lock: "is_key_event e \<Longrightarrow> \<not> is_lock_event e"
  by (cases e) simp_all

lemma locked_only_key_events:
  "\<forall>e \<in> set (snd (datakey_locked b rnd d pa ctx p)). is_key_event e"
proof -
  obtain kb evs0 where kb: "key_buffer (Get_bits d) = (kb, evs0)"
    by (cases "key_buffer (Get_bits d)")
  then have e0: "\<forall>e \<in> set evs0. is_key_event e"
    by (auto simp add: key_buffer_cases split: if_splits)
  show ?thesis
  proof (cases kb)
    case None
    with kb e0 show ?thesis by (simp add: datakey_locked_def)
  next
    case (Some buf)
    show ?thesis
    proof (cases rnd)
      case (RandFail e)
      with kb Some e0 show ?thesis by (simp add: datakey_locked_def)
    next
      case (RandFill g)
      obtain ct eo where
        "Encrypt b p ctx (EncodeToString (map g [0..<length buf])) = (ct, eo)"
        by (cases "Encrypt b p ctx (EncodeToString (map g [0..<length buf]))")
      with kb Some RandFill e0 show ?thesis
        by (cases eo) (auto simp add: datakey_locked_def Let_def split: go_error.splits)
    qed
  qed
qed

lemma locked_success:
  assumes "datakey_locked b rnd d pa ctx p = ((Some (Response m), None), evs)"
  obtains g key ct allocs where
    "rnd = RandFill g" and "Get_bits d \<in> {128, 256, 512}"
    and "key = map g [0..<nat (Get_bits d div 8)]"
    and "Encrypt b p ctx (EncodeToString key) = (ct, None)" and "ct \<noteq> []"
    and "m = (if pa then [''ciphertext'' \<mapsto> ct, ''plaintext'' \<mapsto> EncodeToString key]
              else [''ciphertext'' \<mapsto> ct])"
    and "fst (key_buffer (Get_bits d)) = Some (make_bytes (nat (Get_bits d div 8)))"
    and "evs = snd (key_buffer (Get_bits d))
                 @ [EvRandRead (nat (Get_bits d div 8)), EvEncrypt ctx (EncodeToString key)]"
proof -
  obtain kb evs0 where kb: "key_buffer (Get_bits d) = (kb, evs0)"
    by (cases "key_buffer (Get_bits d)")
  with assms obtain buf where buf: "kb = Some buf"
    by (cases kb) (auto simp add: datakey_locked_def)
  from kb buf have "key_buffer (Get_bits d) = (Some buf, evs0)" by simp
  from key_buffer_Some [OF this] have bits: "Get_bits d \<in> {128, 256, 512}"
    and len: "length buf = nat (Get_bits d div 8)"
    and mk: "buf = make_bytes (nat (Get_bits d div 8))"
    by blast+
  from assms kb buf obtain g where g: "rnd = RandFill g"
    by (cases rnd) (auto simp add: datakey_locked_def)
  define key where "key = map g [0..<nat (Get_bits d div 8)]"
  have rd: "rand_Read rnd buf = (key, None)"
    by (simp add: g key_def len)
  obtain ct eo where enc: "Encrypt b p ctx (EncodeToString key) = (ct, eo)"
    by (cases "Encrypt b p ctx (EncodeToString key)")
  from assms kb buf rd enc have eo: "eo = None"
    by (cases eo) (auto simp add: datakey_locked_def Let_def split: go_error.splits)
  from assms kb buf rd enc eo have ct: "ct \<noteq> []"
    by (auto simp add: datakey_locked_def Let_def split: if_splits)
  from assms kb buf rd enc eo ct
  have m: "m = (if pa then [''ciphertext'' \<mapsto> ct, ''plaintext'' \<mapsto> EncodeToString key]
                else [''ciphertext'' \<mapsto> ct])"
    and evs: "evs = evs0 @ [EvRandRead (length buf), EvEncrypt ctx (EncodeToString key)]"
    by (auto simp add: datakey_locked_def Let_def split: if_splits)
  show thesis
    using that [OF g bits key_def] enc eo ct m evs kb buf mk len by simp
qed

lemma run_success:
  assumes "is_success (pathDatakeyWrite b rnd s l d)"
  obtains ctx p lt s' l' g key ct where
    "valid_mode d" and "decode_context d = Some ctx"
    and "GetPolicy b s (Get_string (f_name d)) l = ((Some p, lt, None), s', l')"
    and "rnd = RandFill g" and "Get_bits d \<in> {128, 256, 512}"
    and "key = map g [0..<nat (Get_bits d div 8)]"
    and "Encrypt b p ctx (EncodeToString key) = (ct, None)" and "ct \<noteq> []"
    and "resp (pathDatakeyWrite b rnd s l d) =
           Some (Response (if Get_string (f_plaintext d) = ''plaintext''
                           then [''ciphertext'' \<mapsto> ct, ''plaintext'' \<mapsto> EncodeToString key]
                           else [''ciphertext'' \<mapsto> ct]))"
    and "calls (pathDatakeyWrite b rnd s l d) =
           EvGetPolicy (Get_string (f_name d)) # snd (key_buffer (Get_bits d))
             @ [EvRandRead (nat (Get_bits d div 8)), EvEncrypt ctx (EncodeToString key),
                EvUnlockPolicy (Get_string (f_name d)) lt]"
proof -
  let ?r = "pathDatakeyWrite b rnd s l d"
  have vm: "valid_mode d"
    using assms run_invalid_mode [of d b rnd s l] by (cases "valid_mode d") auto
  obtain ctx where ctx: "decode_context d = Some ctx"
    using assms vm run_bad_context [of d b rnd s l] by (cases "decode_context d") auto
  obtain po lt eo s' l' where
    gp: "GetPolicy b s (Get_string (f_name d)) l = ((po, lt, eo), s', l')"
    by (metis prod.collapse)
  have eo: "eo = None"
    using assms run_lookup_failed [OF vm ctx, of b s l po lt _ s' l' rnd] gp
    by (cases eo) auto
  obtain p where p: "po = Some p"
    using assms run_not_found [OF vm ctx, of b s l lt s' l' rnd] gp eo
    by (cases po) auto
  obtain r e evs where
    lk: "datakey_locked b rnd d (Get_string (f_plaintext d) = ''plaintext'') ctx p = ((r, e), evs)"
    by (metis prod.collapse)
  note run = run_locked [OF vm ctx gp [unfolded eo p] lk]
  from assms run obtain m where "r = Some (Response m)" and "e = None"
    by (auto split: option.splits Response.splits)
  with lk have
    "datakey_locked b rnd d (Get_string (f_plaintext d) = ''plaintext'') ctx p
       = ((Some (Response m), None), evs)"
    by simp
  then show thesis
  proof (rule locked_success)
    fix g key ct allocs
    assume "rnd = RandFill g" "Get_bits d \<in> {128, 256, 512}"
      "key = map g [0..<nat (Get_bits d div 8)]"
      "Encrypt b p ctx (EncodeToString key) = (ct, None)" "ct \<noteq> []"
      "m = (if Get_string (f_plaintext d) = ''plaintext''
            then [''ciphertext'' \<mapsto> ct, ''plaintext'' \<mapsto> EncodeToString key]
            else [''ciphertext'' \<mapsto> ct])"
      "evs = snd (key_buffer (Get_bits d))
               @ [EvRandRead (nat (Get_bits d div 8)), EvEncrypt ctx (EncodeToString key)]"
    then show thesis
      using that [OF vm ctx gp [unfolded eo p], of g key ct] run \<open>r = Some (Response m)\<close>
      by simp
  qed
qed

text \<open>
  A run succeeds exactly when its error is nil: every path that returns a nil error
  returns a response with data.
\<close>

lemma locked_nil_error:
  assumes "datakey_locked b rnd d pa ctx p = ((r, None), evs)"
  shows "\<exists>m. r = Some (Response m)"
proof -
  obtain kb evs0 where kb: "key_buffer (Get_bits d) = (kb, evs0)"
    by (cases "key_buffer (Get_bits d)")
  show ?thesis
  proof (cases kb)
    case None
    with kb assms show ?thesis by (simp add: datakey_locked_def)
  next
    case (Some buf)
    show ?thesis
    proof (cases rnd)
      case (RandFail e)
      with kb Some assms show ?thesis by (simp add: datakey_locked_def)
    next
      case (RandFill g)
      obtain ct eo where
        "Encrypt b p ctx (EncodeToString (map g [0..<length buf])) = (ct, eo)"
        by (cases "Encrypt b p ctx (EncodeToString (map g [0..<length buf]))")
      with kb Some RandFill assms show ?thesis
        by (cases eo; cases "ct = []")
           (auto simp add: datakey_locked_def Let_def split: go_error.splits)
    qed
  qed
qed


lemma success_nil_error: "is_success r \<Longrightarrow> err r = None"
  by (simp split: option.splits Response.splits)

lemma nil_error_iff_success:
  "err (pathDatakeyWrite b rnd s l d) = None \<longleftrightarrow> is_success (pathDatakeyWrite b rnd s l d)"
proof
  assume "is_success (pathDatakeyWrite b rnd s l d)"
  then show "err (pathDatakeyWrite b rnd s l d) = None"
    by (rule success_nil_error)
next
  assume nil: "err (pathDatakeyWrite b rnd s l d) = None"
  have vm: "valid_mode d"
  proof (rule ccontr)
    assume "\<not> valid_mode d"
    from run_invalid_mode [OF this, of b rnd s l] nil show False by simp
  qed
  obtain ctx where ctx: "decode_context d = Some ctx"
  proof (cases "decode_context d")
    case None
    from run_bad_context [OF vm None, of b rnd s l] nil show ?thesis by simp
  next
    case (Some c)
    with that show ?thesis .
  qed
  from vm ctx show "is_success (pathDatakeyWrite b rnd s l d)"
  proof (cases rule: run_lookup_cases [where b = b and s = s and l = l])
    case (failed p lt e s' l')
    from run_lookup_failed [OF vm ctx this, of rnd] nil show ?thesis by simp
  next
    case (absent lt s' l')
    from run_not_found [OF vm ctx this, of rnd] nil show ?thesis by simp
  next
    case (found p lt s' l')
    obtain r e evs where lk:
      "datakey_locked b rnd d (Get_string (f_plaintext d) = ''plaintext'') ctx p = ((r, e), evs)"
      by (metis prod.collapse)
    note run = run_locked [OF vm ctx found lk]
    with nil have e: "e = None" by simp
    from lk [unfolded e] have "\<exists>m. r = Some (Response m)"
      by (rule locked_nil_error)
    then obtain m where "r = Some (Response m)" ..
    with run e show ?thesis by simp
  qed
qed

subsection \<open>Runs of the instances\<close>

lemmas test_defs = test_backend_def test_storage_def test_rand_def test_request_def
  Get_string_def Get_bits_def bits_Default_def valid_mode_def decode_context_def

lemma test_run_wrapped_success: "is_success (test_run ''wrapped'' ''k'' [] None)"
  by code_simp

lemma test_run_plaintext_success: "is_success (test_run ''plaintext'' ''k'' ''QQ=='' (Some 128))"
  by code_simp

lemma test_run_default_success: "is_success (test_run ''plaintext'' ''k'' [] None)"
  by code_simp

lemma test_decode_context:
  "decode_context (test_request ''plaintext'' ''k'' ''QQ=='' (Some 128)) = Some [0x41]"
  by code_simp

lemma find_version_number:
  assumes "v \<in> set (map version_number vs)"
  obtains kv where "find (\<lambda>kv. version_number kv = v) vs = Some kv"
proof -
  from assms have "find (\<lambda>kv. version_number kv = v) vs \<noteq> None"
    by (auto simp add: find_None_iff)
  with that show thesis by blast
qed

lemma test_cipher_contract: "cipher_contract test_cipher"
  by (simp add: cipher_contract_def test_cipher_def comp_def)

lemma test_policy_invariant: "policy_invariant test_policy"
  by (simp add: policy_invariant_def test_policy_def)

section \<open>Properties of the data-key operation\<close>

text \<open>
  C1: When the lock manager finds no policy under the requested name (\<open>GetPolicy\<close> returns
  nil and no error), the operation fails: it returns an error response together with
  \<open>logical.ErrInvalidRequest\<close>, and it makes no call that produces a key (no buffer, no
  random bytes, no encryption). For a request that passes the checks of the mode and
  the context, the response is \<open>policy not found\<close> and the lookup is the only call made;
  a request that fails one of these two checks is rejected before the lookup. The handler
  has no call that creates a policy.
\<close>

theorem policy_not_found:
  assumes "fst (GetPolicy b s (Get_string (f_name d)) l) = (None, lt, None)"
  shows "err (pathDatakeyWrite b rnd s l d) = Some ErrInvalidRequest
       \<and> (\<exists>m. resp (pathDatakeyWrite b rnd s l d) = Some (ErrorResponse m))
       \<and> \<not> is_success (pathDatakeyWrite b rnd s l d)
       \<and> (\<forall>e \<in> set (calls (pathDatakeyWrite b rnd s l d)). \<not> is_key_event e)
       \<and> (valid_mode d \<and> decode_context d \<noteq> None \<longrightarrow>
            resp (pathDatakeyWrite b rnd s l d) = Some (ErrorResponse ''policy not found'')
            \<and> calls (pathDatakeyWrite b rnd s l d) = [EvGetPolicy (Get_string (f_name d))])"
proof (cases "valid_mode d")
  case False
  then show ?thesis by (simp add: run_invalid_mode)
next
  case vm: True
  show ?thesis
  proof (cases "decode_context d")
    case None
    with vm show ?thesis by (simp add: run_bad_context)
  next
    case (Some ctx)
    obtain s' l' where "GetPolicy b s (Get_string (f_name d)) l = ((None, lt, None), s', l')"
      using assms by (cases "GetPolicy b s (Get_string (f_name d)) l") auto
    from run_not_found [OF vm Some this] Some vm show ?thesis by simp
  qed
qed

text \<open>The theorem at a request for a name that is not stored.\<close>

theorem policy_not_found_witness:
  "resp (test_run ''plaintext'' ''nokey'' [] None) = Some (ErrorResponse ''policy not found'')
   \<and> err (test_run ''plaintext'' ''nokey'' [] None) = Some ErrInvalidRequest
   \<and> calls (test_run ''plaintext'' ''nokey'' [] None) = [EvGetPolicy ''nokey'']"
  using policy_not_found [where b = test_backend and s = test_storage and l = "[]"
      and d = "test_request ''plaintext'' ''nokey'' [] None" and lt = shared and rnd = test_rand]
  by (simp add: test_defs)

text \<open>
  C2: As amended. For a request whose \<open>bits\<close> is none of 128, 256 and 512 the operation
  fails, and neither the random source nor \<open>Encrypt\<close> is called. When the request
  reaches the switch on \<open>bits\<close> (valid mode, decodable context, policy found), the result
  is the error response \<open>invalid bit length\<close> with \<open>logical.ErrInvalidRequest\<close>; the
  calls made are the lookup, the allocation of the default buffer of 32 bytes, and the
  release of the lock.
\<close>

theorem invalid_bits_rejected:
  assumes "Get_bits d \<notin> {128, 256, 512}"
  shows "\<not> is_success (pathDatakeyWrite b rnd s l d)
       \<and> (\<forall>e \<in> set (calls (pathDatakeyWrite b rnd s l d)).
             \<not> is_rand_event e \<and> \<not> is_encrypt_event e)
       \<and> (valid_mode d \<and> decode_context d = Some ctx
            \<and> GetPolicy b s (Get_string (f_name d)) l = ((Some p, lt, None), s', l')
          \<longrightarrow> resp (pathDatakeyWrite b rnd s l d) = Some (ErrorResponse ''invalid bit length'')
            \<and> err (pathDatakeyWrite b rnd s l d) = Some ErrInvalidRequest
            \<and> calls (pathDatakeyWrite b rnd s l d) =
                [EvGetPolicy (Get_string (f_name d)), EvMake 32,
                 EvUnlockPolicy (Get_string (f_name d)) lt])"
proof (cases "valid_mode d")
  case False
  then show ?thesis by (simp add: run_invalid_mode)
next
  case vm: True
  show ?thesis
  proof (cases "decode_context d")
    case None
    with vm show ?thesis by (simp add: run_bad_context)
  next
    case (Some c)
    from vm Some show ?thesis
    proof (cases rule: run_lookup_cases [where b = b and s = s and l = l])
      case (failed p1 lt1 e s1 l1)
      from run_lookup_failed [OF vm Some this] this show ?thesis
        by simp
    next
      case (absent lt1 s1 l1)
      from run_not_found [OF vm Some this] this show ?thesis
        by simp
    next
      case (found p1 lt1 s1 l1)
      from run_locked [OF vm Some found locked_invalid_bits [OF assms]] found show ?thesis
        by simp
    qed
  qed
qed

text \<open>The theorem at a request for 200 bits.\<close>

theorem invalid_bits_rejected_witness:
  "Get_bits (test_request ''plaintext'' ''k'' [] (Some 200)) \<notin> {128, 256, 512}
   \<and> resp (test_run ''plaintext'' ''k'' [] (Some 200)) = Some (ErrorResponse ''invalid bit length'')
   \<and> err (test_run ''plaintext'' ''k'' [] (Some 200)) = Some ErrInvalidRequest
   \<and> filter is_rand_event (calls (test_run ''plaintext'' ''k'' [] (Some 200))) = []
   \<and> filter is_encrypt_event (calls (test_run ''plaintext'' ''k'' [] (Some 200))) = []"
  using invalid_bits_rejected [where b = test_backend and s = test_storage and l = "[]"
      and d = "test_request ''plaintext'' ''k'' [] (Some 200)" and rnd = test_rand
      and ctx = "[]" and p = 2 and lt = shared and s' = test_storage and l' = "[(''k'', shared)]"]
  by (simp add: test_defs filter_empty_conv)

text \<open>
  The claim as stated also says that \<open>bits\<close> is checked before any key buffer is
  allocated. The handler allocates 32 bytes first and switches on \<open>bits\<close> afterwards:
  the run for 200 bits ends in \<open>invalid bit length\<close> with the allocation made.
\<close>

theorem buffer_allocated_before_bits_check:
  "Get_bits (test_request ''plaintext'' ''k'' [] (Some 200)) \<notin> {128, 256, 512}
   \<and> resp (test_run ''plaintext'' ''k'' [] (Some 200)) = Some (ErrorResponse ''invalid bit length'')
   \<and> calls (test_run ''plaintext'' ''k'' [] (Some 200))
        = [EvGetPolicy ''k'', EvMake 32, EvUnlockPolicy ''k'' shared]"
  by (simp add: pathDatakeyWrite_def datakey_locked_def key_buffer_def Let_def test_defs)

text \<open>
  C3: In a successful run in wrapped mode the data of the response has a \<open>ciphertext\<close>
  field and no \<open>plaintext\<close> field (\<open>ciphertext\<close> is its only key); in plaintext mode
  both fields are present.
\<close>

theorem wrapped_omits_plaintext:
  assumes "is_success (pathDatakeyWrite b rnd s l d)"
  shows "(Get_string (f_plaintext d) = ''wrapped'' \<longrightarrow>
            Data_of (pathDatakeyWrite b rnd s l d) ''ciphertext'' \<noteq> None
          \<and> Data_of (pathDatakeyWrite b rnd s l d) ''plaintext'' = None
          \<and> dom (Data_of (pathDatakeyWrite b rnd s l d)) = {''ciphertext''})
       \<and> (Get_string (f_plaintext d) = ''plaintext'' \<longrightarrow>
            Data_of (pathDatakeyWrite b rnd s l d) ''ciphertext'' \<noteq> None
          \<and> Data_of (pathDatakeyWrite b rnd s l d) ''plaintext'' \<noteq> None)"
  using assms by (rule run_success) (auto simp add: valid_mode_def)

text \<open>The theorem at a successful run in each of the two modes.\<close>

theorem wrapped_omits_plaintext_witness:
  "Data_of (test_run ''wrapped'' ''k'' [] None) ''plaintext'' = None
   \<and> Data_of (test_run ''wrapped'' ''k'' [] None) ''ciphertext'' \<noteq> None
   \<and> Data_of (test_run ''plaintext'' ''k'' ''QQ=='' (Some 128)) ''plaintext'' \<noteq> None
   \<and> Data_of (test_run ''plaintext'' ''k'' ''QQ=='' (Some 128)) ''ciphertext'' \<noteq> None"
  using wrapped_omits_plaintext [OF test_run_wrapped_success]
    wrapped_omits_plaintext [OF test_run_plaintext_success]
  by (simp add: test_request_def Get_string_def)

text \<open>
  C4: In a successful run in plaintext mode the \<open>plaintext\<close> field decodes, as base64, to a
  key of exactly \<open>bits/8\<close> bytes: 32 for 256 bits, 16 for 128, 64 for 512; and when
  \<open>bits\<close> is not supplied it is 256, so the key has 32 bytes.
\<close>

theorem plaintext_key_length:
  assumes "is_success (pathDatakeyWrite b rnd s l d)"
    and "Get_string (f_plaintext d) = ''plaintext''"
  shows "\<exists>pt key. Data_of (pathDatakeyWrite b rnd s l d) ''plaintext'' = Some pt
           \<and> DecodeString pt = Some key
           \<and> int (length key) = Get_bits d div 8
           \<and> (Get_bits d = 256 \<longrightarrow> length key = 32)
           \<and> (Get_bits d = 128 \<longrightarrow> length key = 16)
           \<and> (Get_bits d = 512 \<longrightarrow> length key = 64)
           \<and> (f_bits d = None \<longrightarrow> Get_bits d = 256 \<and> length key = 32)"
  using assms(1)
proof (rule run_success)
  fix g key ct
  assume bits: "Get_bits d \<in> {128, 256, 512}"
    and key: "key = map g [0..<nat (Get_bits d div 8)]"
    and "resp (pathDatakeyWrite b rnd s l d) =
           Some (Response (if Get_string (f_plaintext d) = ''plaintext''
                           then [''ciphertext'' \<mapsto> ct, ''plaintext'' \<mapsto> EncodeToString key]
                           else [''ciphertext'' \<mapsto> ct]))"
  with assms(2) have pt: "Data_of (pathDatakeyWrite b rnd s l d) ''plaintext''
                            = Some (EncodeToString key)"
    by simp
  have len: "int (length key) = Get_bits d div 8"
    using bits key by auto
  have dflt: "f_bits d = None \<longrightarrow> Get_bits d = 256"
    by (simp add: Get_bits_def bits_Default_def)
  from pt len dflt show ?thesis
    by (intro exI [of _ "EncodeToString key"] exI [of _ key])
       (auto simp add: DecodeString_EncodeToString)
qed

text \<open>The theorem at a run for 128 bits and at a run with \<open>bits\<close> not supplied.\<close>

theorem plaintext_key_length_witness:
  "(\<exists>pt key. Data_of (test_run ''plaintext'' ''k'' ''QQ=='' (Some 128)) ''plaintext'' = Some pt
      \<and> DecodeString pt = Some key \<and> length key = 16)
   \<and> f_bits (test_request ''plaintext'' ''k'' [] None) = None
   \<and> (\<exists>pt key. Data_of (test_run ''plaintext'' ''k'' [] None) ''plaintext'' = Some pt
      \<and> DecodeString pt = Some key \<and> length key = 32)"
  using plaintext_key_length [OF test_run_plaintext_success]
    plaintext_key_length [OF test_run_default_success]
  by (auto simp add: test_request_def Get_string_def Get_bits_def bits_Default_def)

text \<open>
  C5: In a successful run the key is the \<open>bits/8\<close> bytes that \<open>rand.Read\<close> delivered; the
  ciphertext of the response is what \<open>Encrypt\<close> of the looked-up policy returned for the
  decoded context and the base64 encoding of exactly these bytes; in plaintext mode the
  \<open>plaintext\<close> field is the base64 encoding of the same bytes. The random source is
  read once and \<open>Encrypt\<close> is called once, in this order, before the lock is released.
\<close>

theorem ciphertext_wraps_generated_key:
  assumes "is_success (pathDatakeyWrite b rnd s l d)"
  shows "\<exists>g key ctx p lt s' l' ct pre.
           rnd = RandFill g
         \<and> key = map g [0..<nat (Get_bits d div 8)]
         \<and> int (length key) = Get_bits d div 8
         \<and> decode_context d = Some ctx
         \<and> GetPolicy b s (Get_string (f_name d)) l = ((Some p, lt, None), s', l')
         \<and> Encrypt b p ctx (EncodeToString key) = (ct, None)
         \<and> Data_of (pathDatakeyWrite b rnd s l d) ''ciphertext'' = Some ct
         \<and> (Get_string (f_plaintext d) = ''plaintext'' \<longrightarrow>
              Data_of (pathDatakeyWrite b rnd s l d) ''plaintext'' = Some (EncodeToString key))
         \<and> calls (pathDatakeyWrite b rnd s l d) =
              pre @ [EvRandRead (length key), EvEncrypt ctx (EncodeToString key),
                     EvUnlockPolicy (Get_string (f_name d)) lt]
         \<and> (\<forall>e \<in> set pre. \<not> is_rand_event e \<and> \<not> is_encrypt_event e)"
  using assms
proof (rule run_success)
  fix ctx p lt s' l' g key ct
  assume ctx: "decode_context d = Some ctx"
    and gp: "GetPolicy b s (Get_string (f_name d)) l = ((Some p, lt, None), s', l')"
    and g: "rnd = RandFill g"
    and bits: "Get_bits d \<in> {128, 256, 512}"
    and key: "key = map g [0..<nat (Get_bits d div 8)]"
    and enc: "Encrypt b p ctx (EncodeToString key) = (ct, None)"
    and rsp: "resp (pathDatakeyWrite b rnd s l d) =
           Some (Response (if Get_string (f_plaintext d) = ''plaintext''
                           then [''ciphertext'' \<mapsto> ct, ''plaintext'' \<mapsto> EncodeToString key]
                           else [''ciphertext'' \<mapsto> ct]))"
    and cls: "calls (pathDatakeyWrite b rnd s l d) =
           EvGetPolicy (Get_string (f_name d)) # snd (key_buffer (Get_bits d))
             @ [EvRandRead (nat (Get_bits d div 8)), EvEncrypt ctx (EncodeToString key),
                EvUnlockPolicy (Get_string (f_name d)) lt]"
  let ?pre = "EvGetPolicy (Get_string (f_name d)) # snd (key_buffer (Get_bits d))"
  have len: "length key = nat (Get_bits d div 8)"
    by (simp add: key)
  have len': "int (length key) = Get_bits d div 8"
    using bits key by auto
  have pre: "\<forall>e \<in> set ?pre. \<not> is_rand_event e \<and> \<not> is_encrypt_event e"
    using bits by (auto simp add: key_buffer_cases)
  have c: "calls (pathDatakeyWrite b rnd s l d) =
             ?pre @ [EvRandRead (length key), EvEncrypt ctx (EncodeToString key),
                     EvUnlockPolicy (Get_string (f_name d)) lt]"
    using cls len by simp
  have dat: "Data_of (pathDatakeyWrite b rnd s l d) ''ciphertext'' = Some ct"
    "Get_string (f_plaintext d) = ''plaintext'' \<longrightarrow>
       Data_of (pathDatakeyWrite b rnd s l d) ''plaintext'' = Some (EncodeToString key)"
    using rsp by simp_all
  from g key len' ctx gp enc dat c pre show ?thesis
    by blast
qed

text \<open>The theorem at a run in plaintext mode for 128 bits with the context \<open>QQ==\<close>.\<close>

theorem ciphertext_wraps_generated_key_witness:
  "\<exists>key ct. key = map of_nat [0..<16]
     \<and> Encrypt test_backend 2 [0x41] (EncodeToString key) = (ct, None)
     \<and> Data_of (test_run ''plaintext'' ''k'' ''QQ=='' (Some 128)) ''ciphertext'' = Some ct
     \<and> Data_of (test_run ''plaintext'' ''k'' ''QQ=='' (Some 128)) ''plaintext''
           = Some (EncodeToString key)
     \<and> EvEncrypt [0x41] (EncodeToString key)
           \<in> set (calls (test_run ''plaintext'' ''k'' ''QQ=='' (Some 128)))"
  using ciphertext_wraps_generated_key [OF test_run_plaintext_success]
  by (clarsimp simp add: test_decode_context)
     (auto simp add: test_backend_def test_storage_def test_rand_def test_request_def
        Get_string_def Get_bits_def)

text \<open>
  C6: When the context is not empty and is not valid base64, the operation fails with an
  error response and \<open>logical.ErrInvalidRequest\<close>, and it has made no call at all: the
  policy is not looked up or locked, no buffer is allocated, no random bytes are read, and
  the storage and the lock manager are as they were. With a valid mode the response is
  \<open>failed to decode context as base64\<close>.
\<close>

theorem malformed_context_rejected:
  assumes "Get_string (f_context d) \<noteq> []"
    and "DecodeString (Get_string (f_context d)) = None"
  shows "err (pathDatakeyWrite b rnd s l d) = Some ErrInvalidRequest
       \<and> (\<exists>m. resp (pathDatakeyWrite b rnd s l d) = Some (ErrorResponse m))
       \<and> calls (pathDatakeyWrite b rnd s l d) = []
       \<and> storage_after (pathDatakeyWrite b rnd s l d) = s
       \<and> lm_after (pathDatakeyWrite b rnd s l d) = l
       \<and> (valid_mode d \<longrightarrow>
            resp (pathDatakeyWrite b rnd s l d)
              = Some (ErrorResponse ''failed to decode context as base64''))"
proof -
  from assms have "decode_context d = None"
    by (simp add: decode_context_def Let_def)
  then show ?thesis
    by (cases "valid_mode d") (simp_all add: run_invalid_mode run_bad_context)
qed

text \<open>The theorem at the context \<open>!!\<close>.\<close>

theorem malformed_context_rejected_witness:
  "Get_string (f_context (test_request ''wrapped'' ''k'' ''!!'' None)) \<noteq> []
   \<and> DecodeString ''!!'' = None
   \<and> resp (test_run ''wrapped'' ''k'' ''!!'' None)
        = Some (ErrorResponse ''failed to decode context as base64'')
   \<and> err (test_run ''wrapped'' ''k'' ''!!'' None) = Some ErrInvalidRequest
   \<and> calls (test_run ''wrapped'' ''k'' ''!!'' None) = []
   \<and> storage_after (test_run ''wrapped'' ''k'' ''!!'' None) = test_storage
   \<and> lm_after (test_run ''wrapped'' ''k'' ''!!'' None) = []"
proof -
  have bad: "DecodeString ''!!'' = None"
    by code_simp
  show ?thesis
    using malformed_context_rejected [where d = "test_request ''wrapped'' ''k'' ''!!'' None"
        and b = test_backend and rnd = test_rand and s = test_storage and l = "[]"] bad
    by (simp add: test_request_def Get_string_def valid_mode_def)
qed

text \<open>
  C7: When the run reaches the policy with its lock held, then whatever follows (an invalid
  bit length, a failure of the random source, a failure of \<open>Encrypt\<close>, an empty
  ciphertext, or success) the last call of the run is \<open>UnlockPolicy\<close> with the name and
  the lock type that \<open>GetPolicy\<close> returned, no other call of the lock manager lies
  between the two, and the lock manager is left in the state \<open>UnlockPolicy\<close> produces.
  When the run does not take the lock, it fails and never calls \<open>UnlockPolicy\<close>.
\<close>

theorem lock_released_on_every_path:
  "(policy_locked b s l d \<longrightarrow>
      (\<exists>p lt s' l' body.
          GetPolicy b s (Get_string (f_name d)) l = ((Some p, lt, None), s', l')
        \<and> calls (pathDatakeyWrite b rnd s l d) =
            EvGetPolicy (Get_string (f_name d)) # body
              @ [EvUnlockPolicy (Get_string (f_name d)) lt]
        \<and> (\<forall>e \<in> set body. \<not> is_lock_event e)
        \<and> lm_after (pathDatakeyWrite b rnd s l d) = UnlockPolicy b (Get_string (f_name d)) lt l'))
 \<and> (\<not> policy_locked b s l d \<longrightarrow>
      \<not> is_success (pathDatakeyWrite b rnd s l d)
    \<and> (\<forall>e \<in> set (calls (pathDatakeyWrite b rnd s l d)). \<not> is_unlock_event e))"
proof (cases "valid_mode d")
  case False
  then show ?thesis by (simp add: run_invalid_mode policy_locked_def)
next
  case vm: True
  show ?thesis
  proof (cases "decode_context d")
    case None
    with vm show ?thesis by (simp add: run_bad_context policy_locked_def)
  next
    case (Some ctx)
    from vm Some show ?thesis
    proof (cases rule: run_lookup_cases [where b = b and s = s and l = l])
      case (failed p lt e s' l')
      from run_lookup_failed [OF vm Some this] this show ?thesis
        by (simp add: policy_locked_def split: option.splits)
    next
      case (absent lt s' l')
      from run_not_found [OF vm Some this] this show ?thesis
        by (simp add: policy_locked_def)
    next
      case (found p lt s' l')
      obtain r e evs where lk:
        "datakey_locked b rnd d (Get_string (f_plaintext d) = ''plaintext'') ctx p = ((r, e), evs)"
        by (metis prod.collapse)
      have "\<forall>e \<in> set evs. \<not> is_lock_event e"
        using locked_only_key_events [of b rnd d "Get_string (f_plaintext d) = ''plaintext''" ctx p]
          lk key_event_not_lock by auto
      with run_locked [OF vm Some found lk] found vm Some show ?thesis
        by (simp add: policy_locked_def)
    qed
  qed
qed

text \<open>The theorem at a run whose \<open>Encrypt\<close> fails under the held lock, and at a run that finds no policy.\<close>

theorem lock_released_on_every_path_witness:
  "policy_locked test_backend test_storage [] (test_request ''wrapped'' ''user'' [] None)
   \<and> resp (test_run ''wrapped'' ''user'' [] None) = Some (ErrorResponse ''context not allowed'')
   \<and> (\<exists>body. calls (test_run ''wrapped'' ''user'' [] None)
                  = EvGetPolicy ''user'' # body @ [EvUnlockPolicy ''user'' shared])
   \<and> lm_after (test_run ''wrapped'' ''user'' [] None) = []
   \<and> \<not> policy_locked test_backend test_storage [] (test_request ''wrapped'' ''nokey'' [] None)
   \<and> filter is_unlock_event (calls (test_run ''wrapped'' ''nokey'' [] None)) = []"
proof -
  have a: "policy_locked test_backend test_storage [] (test_request ''wrapped'' ''user'' [] None)"
    by (simp add: policy_locked_def test_defs)
  have b: "\<not> policy_locked test_backend test_storage [] (test_request ''wrapped'' ''nokey'' [] None)"
    by (simp add: policy_locked_def test_defs)
  have c: "resp (test_run ''wrapped'' ''user'' [] None) = Some (ErrorResponse ''context not allowed'')"
    by (simp add: pathDatakeyWrite_def datakey_locked_def key_buffer_def Let_def test_defs)
  from a b c
    lock_released_on_every_path [where b = test_backend and s = test_storage and l = "[]"
      and d = "test_request ''wrapped'' ''user'' [] None" and rnd = test_rand]
    lock_released_on_every_path [where b = test_backend and s = test_storage and l = "[]"
      and d = "test_request ''wrapped'' ''nokey'' [] None" and rnd = test_rand]
  show ?thesis
    by (auto simp add: test_backend_def test_storage_def test_request_def Get_string_def
        filter_empty_conv)
qed

text \<open>
  C8: For a policy record that satisfies the invariants and is not derived, and a cipher
  that meets its contract, encrypting a plaintext without context and without a pinned
  version yields an envelope, and decrypting this envelope returns the plaintext.
\<close>

theorem encrypt_decrypt_roundtrip:
  assumes "policy_invariant p" and "\<not> derived p" and "cipher_contract c"
  shows "\<exists>env. spec_encrypt c p None None m nonce = Inr env
             \<and> spec_decrypt c p None env = Inr m"
proof -
  from assms(1) have
    latest: "latest_version p \<in> set (map version_number (versions p))"
    and "min_decryption_version p \<le> min_encryption_version p"
    and "min_encryption_version p \<le> latest_version p"
    unfolding policy_invariant_def by blast+
  then have bound: "min_decryption_version p \<le> latest_version p"
    by simp
  from latest obtain kv where
    kv: "find (\<lambda>kv. version_number kv = latest_version p) (versions p) = Some kv"
    by (rule find_version_number)
  let ?env = "seal c (key_bytes kv) m (latest_version p) (convergent_encryption p) nonce"
  have key: "resolve_key c p None (latest_version p) = Inr (key_bytes kv)"
    using assms(2) kv by (simp add: resolve_key_def)
  have tag: "env_version ?env = latest_version p"
    and inv: "unseal c (key_bytes kv) ?env (latest_version p) = Some m"
    using assms(3) by (simp_all add: cipher_contract_def)
  have enc: "spec_encrypt c p None None m nonce = Inr ?env"
    by (simp add: spec_encrypt_def key)
  have dec: "spec_decrypt c p None ?env = Inr m"
    using bound by (simp add: spec_decrypt_def Let_def tag key inv)
  from enc dec show ?thesis by blast
qed

text \<open>The theorem at a policy with two versions and the shifting cipher.\<close>

theorem encrypt_decrypt_roundtrip_witness:
  "policy_invariant test_policy \<and> \<not> derived test_policy \<and> cipher_contract test_cipher
   \<and> spec_encrypt test_cipher test_policy None None [10, 20] []
        = Inr \<lparr>env_version = 2, env_ciphertext = [14, 24]\<rparr>
   \<and> spec_decrypt test_cipher test_policy None \<lparr>env_version = 2, env_ciphertext = [14, 24]\<rparr>
        = Inr [10, 20]"
proof -
  have nd: "\<not> derived test_policy"
    by (simp add: test_policy_def)
  have e: "spec_encrypt test_cipher test_policy None None [10, 20] []
             = Inr \<lparr>env_version = 2, env_ciphertext = [14, 24]\<rparr>"
    by (simp add: spec_encrypt_def resolve_key_def test_cipher_def test_policy_def)
  from encrypt_decrypt_roundtrip [OF test_policy_invariant nd test_cipher_contract,
      of "[10, 20]" "[]"] e test_policy_invariant nd test_cipher_contract
  show ?thesis by simp
qed

text \<open>
  C9: The handler itself never changes the storage: after a run the storage is the one the
  lookup of the lock manager left (or the initial one, when the run ends before the
  lookup), on success and on every failure. So when \<open>GetPolicy\<close> only reads, the
  storage after the run is the storage before it.
\<close>

theorem storage_left_to_lock_manager:
  "storage_after (pathDatakeyWrite b rnd s l d) =
      (if valid_mode d \<and> decode_context d \<noteq> None
       then fst (snd (GetPolicy b s (Get_string (f_name d)) l)) else s)
 \<and> (fst (snd (GetPolicy b s (Get_string (f_name d)) l)) = s \<longrightarrow>
      storage_after (pathDatakeyWrite b rnd s l d) = s)"
proof (cases "valid_mode d")
  case False
  then show ?thesis by (simp add: run_invalid_mode)
next
  case vm: True
  show ?thesis
  proof (cases "decode_context d")
    case None
    with vm show ?thesis by (simp add: run_bad_context)
  next
    case (Some ctx)
    from vm Some show ?thesis
    proof (cases rule: run_lookup_cases [where b = b and s = s and l = l])
      case (failed p lt e s' l')
      from run_lookup_failed [OF vm Some this] this vm Some show ?thesis
        by simp
    next
      case (absent lt s' l')
      from run_not_found [OF vm Some this] this vm Some show ?thesis
        by simp
    next
      case (found p lt s' l')
      obtain r e evs where lk:
        "datakey_locked b rnd d (Get_string (f_plaintext d) = ''plaintext'') ctx p = ((r, e), evs)"
        by (metis prod.collapse)
      from run_locked [OF vm Some found lk] found vm Some show ?thesis
        by simp
    qed
  qed
qed

text \<open>The theorem at a successful run with a lock manager that only reads.\<close>

theorem storage_left_to_lock_manager_witness:
  "fst (snd (GetPolicy test_backend test_storage ''k'' [])) = test_storage
   \<and> storage_after (test_run ''plaintext'' ''k'' [] (Some 512)) = test_storage"
  using storage_left_to_lock_manager [where b = test_backend and s = test_storage and l = "[]"
      and d = "test_request ''plaintext'' ''k'' [] (Some 512)" and rnd = test_rand]
  by (simp add: test_defs)

text \<open>
  C10: A successful run has a non-empty \<open>ciphertext\<close> field; and when \<open>Encrypt\<close> returns the
  empty string and no error, the run returns no response and the error
  \<open>empty ciphertext returned\<close>.
\<close>

theorem empty_ciphertext_is_an_error:
  shows "(is_success (pathDatakeyWrite b rnd s l d) \<longrightarrow>
            (\<exists>ct. Data_of (pathDatakeyWrite b rnd s l d) ''ciphertext'' = Some ct \<and> ct \<noteq> []))
       \<and> (valid_mode d \<and> decode_context d = Some ctx
            \<and> GetPolicy b s (Get_string (f_name d)) l = ((Some p, lt, None), s', l')
            \<and> Get_bits d \<in> {128, 256, 512} \<and> rnd = RandFill g
            \<and> Encrypt b p ctx (EncodeToString (map g [0..<nat (Get_bits d div 8)])) = ([], None)
          \<longrightarrow> resp (pathDatakeyWrite b rnd s l d) = None
            \<and> err (pathDatakeyWrite b rnd s l d) = Some (Errorf ''empty ciphertext returned''))"
proof (intro conjI impI)
  assume "is_success (pathDatakeyWrite b rnd s l d)"
  then show "\<exists>ct. Data_of (pathDatakeyWrite b rnd s l d) ''ciphertext'' = Some ct \<and> ct \<noteq> []"
    by (rule run_success) simp
next
  assume a: "valid_mode d \<and> decode_context d = Some ctx
            \<and> GetPolicy b s (Get_string (f_name d)) l = ((Some p, lt, None), s', l')
            \<and> Get_bits d \<in> {128, 256, 512} \<and> rnd = RandFill g
            \<and> Encrypt b p ctx (EncodeToString (map g [0..<nat (Get_bits d div 8)])) = ([], None)"
  then have "datakey_locked b rnd d (Get_string (f_plaintext d) = ''plaintext'') ctx p =
          ((None, Some (Errorf ''empty ciphertext returned'')),
           snd (key_buffer (Get_bits d))
             @ [EvRandRead (nat (Get_bits d div 8)),
                EvEncrypt ctx (EncodeToString (map g [0..<nat (Get_bits d div 8)]))])"
    by (auto simp add: datakey_locked_def key_buffer_cases make_bytes_def Let_def)
  with a have "pathDatakeyWrite b rnd s l d =
           \<lparr>resp = None, err = Some (Errorf ''empty ciphertext returned''), storage_after = s',
            lm_after = UnlockPolicy b (Get_string (f_name d)) lt l',
            calls = EvGetPolicy (Get_string (f_name d))
                      # (snd (key_buffer (Get_bits d))
                          @ [EvRandRead (nat (Get_bits d div 8)),
                             EvEncrypt ctx (EncodeToString (map g [0..<nat (Get_bits d div 8)]))])
                      @ [EvUnlockPolicy (Get_string (f_name d)) lt]\<rparr>"
    by (intro run_locked) auto
  then show "resp (pathDatakeyWrite b rnd s l d) = None"
    and "err (pathDatakeyWrite b rnd s l d) = Some (Errorf ''empty ciphertext returned'')"
    by simp_all
qed

text \<open>The theorem at a policy whose \<open>Encrypt\<close> returns the empty string, and at a successful run.\<close>

theorem empty_ciphertext_is_an_error_witness:
  "resp (test_run ''wrapped'' ''empty'' [] None) = None
   \<and> err (test_run ''wrapped'' ''empty'' [] None) = Some (Errorf ''empty ciphertext returned'')
   \<and> (\<exists>ct. Data_of (test_run ''wrapped'' ''k'' [] None) ''ciphertext'' = Some ct \<and> ct \<noteq> [])"
  using empty_ciphertext_is_an_error [where b = test_backend and rnd = test_rand
      and s = test_storage and l = "[]" and d = "test_request ''wrapped'' ''empty'' [] None"
      and ctx = "[]" and p = 0 and lt = shared and s' = test_storage
      and l' = "[(''empty'', shared)]" and g = "\<lambda>i. of_nat i"]
    empty_ciphertext_is_an_error [where b = test_backend and rnd = test_rand
      and s = test_storage and l = "[]" and d = "test_request ''wrapped'' ''k'' [] None"]
    test_run_wrapped_success
  by (simp add: test_defs)

end
